theory Spec2Isabelle
  imports Main
begin

section \<open>Strings\<close>

text \<open>
  The three string operations the engine uses: \<^verbatim>\<open>s.startsWith(p)\<close>,
  \<^verbatim>\<open>s.substring(n)\<close> and \<^verbatim>\<open>s.split("/")\<close>. A split never returns the empty
  list: the empty string splits into one empty segment, and every separator starts a new
  segment.
\<close>

definition startsWith :: "string \<Rightarrow> string \<Rightarrow> bool" where
  "startsWith s p = (take (length p) s = p)"

definition substring :: "string \<Rightarrow> nat \<Rightarrow> string" where
  "substring s n = drop n s"

fun split_acc :: "char \<Rightarrow> string \<Rightarrow> string \<Rightarrow> string list" where
  "split_acc sep cur [] = [rev cur]"
| "split_acc sep cur (c # cs) =
     (if c = sep then rev cur # split_acc sep [] cs else split_acc sep (c # cur) cs)"

definition split :: "string \<Rightarrow> string list" where
  "split s = split_acc (CHR ''/'') [] s"

section \<open>Path matcher\<close>

text \<open>
  \<^verbatim>\<open>interface PathMatchResult { matched: boolean; params: Record<string, string> }\<close>.
  The parameter object is the map from the names of its own properties to their values.
\<close>

record PathMatchResult =
  matched :: bool
  params :: "string \<rightharpoonup> string"

text \<open>
  \<^verbatim>\<open>params[paramName] = value\<close> on the object that \<^verbatim>\<open>matchPath\<close> creates as \<^verbatim>\<open>{}\<close>.
  The assignment creates the property or replaces its value, for every name but one:
  \<^verbatim>\<open>__proto__\<close> is an accessor that the object inherits, and assigning a string through
  it changes nothing.
\<close>

definition assign :: "(string \<rightharpoonup> string) \<Rightarrow> string \<Rightarrow> string \<Rightarrow> (string \<rightharpoonup> string)" where
  "assign obj name v = (if name = ''__proto__'' then obj else obj(name \<mapsto> v))"

text \<open>
  The loop of \<^verbatim>\<open>matchPath\<close> over \<^verbatim>\<open>i = 0 .. routeParts.length - 1\<close>. It runs only
  when both segment arrays have the same length, so it reads the pairs
  \<^verbatim>\<open>(routeParts[i], actualParts[i])\<close> in order; the accumulator is the \<^verbatim>\<open>params\<close>
  object built so far.
\<close>

fun match_parts :: "(string \<times> string) list \<Rightarrow> (string \<rightharpoonup> string) \<Rightarrow> PathMatchResult" where
  "match_parts [] ps = \<lparr>matched = True, params = ps\<rparr>"
| "match_parts ((r, a) # zs) ps =
     (if startsWith r '':'' then match_parts zs (assign ps (substring r 1) a)
      else if r \<noteq> a then \<lparr>matched = False, params = Map.empty\<rparr>
      else match_parts zs ps)"

definition matchPath :: "string \<Rightarrow> string \<Rightarrow> PathMatchResult" where
  "matchPath actualPath routePath =
     (if routePath = actualPath then \<lparr>matched = True, params = Map.empty\<rparr>
      else
        let routeParts = split routePath;
            actualParts = split actualPath
        in if length routeParts \<noteq> length actualParts
           then \<lparr>matched = False, params = Map.empty\<rparr>
           else match_parts (zip routeParts actualParts) Map.empty)"

subsection \<open>The reference algorithm of the specification\<close>

text \<open>
  The four steps of the specification, written from its words and not from the code:
  a segment of the pattern is a named parameter when it begins with a colon; a pattern
  segment accepts an actual segment when it is a named parameter or the two are equal;
  the parameters of a successful match are the bindings of the named segments, made from
  left to right.
\<close>

definition named_parameter :: "string \<Rightarrow> bool" where
  "named_parameter seg = (case seg of [] \<Rightarrow> False | c # _ \<Rightarrow> c = CHR '':'')"

definition parameter_name :: "string \<Rightarrow> string" where
  "parameter_name seg = tl seg"

definition segment_accepts :: "string \<Rightarrow> string \<Rightarrow> bool" where
  "segment_accepts r a = (named_parameter r \<or> r = a)"

definition bind_segment :: "(string \<rightharpoonup> string) \<Rightarrow> string \<times> string \<Rightarrow> (string \<rightharpoonup> string)" where
  "bind_segment m z = (if named_parameter (fst z) then m(parameter_name (fst z) \<mapsto> snd z) else m)"

definition match_reference :: "string \<Rightarrow> string \<Rightarrow> PathMatchResult" where
  "match_reference actualPath routePattern =
     (if actualPath = routePattern then \<lparr>matched = True, params = Map.empty\<rparr>
      else if length (split routePattern) \<noteq> length (split actualPath)
        then \<lparr>matched = False, params = Map.empty\<rparr>
      else if list_all2 segment_accepts (split routePattern) (split actualPath)
        then \<lparr>matched = True,
              params = foldl bind_segment Map.empty (zip (split routePattern) (split actualPath))\<rparr>
      else \<lparr>matched = False, params = Map.empty\<rparr>)"

section \<open>Request and response model\<close>

text \<open>
  \<^verbatim>\<open>HttpBody\<close> is a union whose only distinguished member is \<^verbatim>\<open>null\<close>: the engine
  tests \<^verbatim>\<open>res.body !== null\<close> and nothing else, so a body is an optional text and
  \<open>None\<close> is \<^verbatim>\<open>null\<close>. The empty text is a body. A \<^verbatim>\<open>Headers\<close> object and the
  \<^verbatim>\<open>params\<close> and \<^verbatim>\<open>query\<close> records are finite maps.
\<close>

type_synonym HttpBody = "string option"

type_synonym Headers = "string \<rightharpoonup> string"

datatype Error = Error string

text \<open>
  \<^verbatim>\<open>interface SlopRequest\<close> and \<^verbatim>\<open>interface SlopResponse\<close>. The fields of the request
  carry the prefix \<open>req_\<close>, since a route, a middleware entry and a response have fields
  of the same names.
\<close>

record SlopRequest =
  req_method :: string
  req_url :: string
  req_headers :: Headers
  req_path :: string
  req_params :: "string \<rightharpoonup> string"
  req_query :: "string \<rightharpoonup> string"
  req_body :: HttpBody

record SlopResponse =
  statusCode :: nat
  headers :: Headers
  body :: HttpBody

text \<open>
  The methods of the response object built in \<^verbatim>\<open>handleRequest\<close>. Each mutates the
  object and returns it; here each maps the response to the mutated response.
  \<^verbatim>\<open>json(data)\<close> stores \<^verbatim>\<open>JSON.stringify(data)\<close>, which is the argument of \<open>json\<close>
  here; \<^verbatim>\<open>end()\<close> without an argument is \<open>res_end None\<close>.
\<close>

definition status :: "nat \<Rightarrow> SlopResponse \<Rightarrow> SlopResponse" where
  "status code r = r\<lparr>statusCode := code\<rparr>"

definition send :: "HttpBody \<Rightarrow> SlopResponse \<Rightarrow> SlopResponse" where
  "send b r = r\<lparr>body := b\<rparr>"


definition res_end :: "HttpBody option \<Rightarrow> SlopResponse \<Rightarrow> SlopResponse" where
  "res_end d r = (case d of None \<Rightarrow> r | Some b \<Rightarrow> r\<lparr>body := b\<rparr>)"

section \<open>Handlers\<close>

text \<open>
  A handler is a function of the application, called with the request, the response and
  the continuation. What the engine can observe of it is: it changes the request and the
  response objects, it reads them, it calls the continuation (with or without an error)
  and awaits the promise, and in the end it returns or throws. A handler is therefore a
  tree of these steps:
  \<^item> \<open>Return\<close>: the handler returns, its promise resolves;
  \<^item> \<open>Throw e\<close>: the handler throws \<open>e\<close>, or its promise rejects with \<open>e\<close>;
  \<^item> \<open>Act f p\<close>: the handler changes the request and the response by \<open>f\<close> (any call of
    a method of the response, any assignment to a field), then goes on as \<open>p\<close>;
  \<^item> \<open>Read f\<close>: the handler goes on as \<open>f\<close> of the present request and response;
  \<^item> \<open>Next e p q\<close>: \<^verbatim>\<open>try { await next(e); p } catch (x) { q x }\<close>, where \<open>e = None\<close>
    is the call without an argument. \<^verbatim>\<open>await next(e)\<close> with no handler around it is
    \<open>Next e p Throw\<close>, and \<^verbatim>\<open>return next(e)\<close> is \<open>Next e Return Throw\<close>;
  \<^item> \<open>Detach e p\<close>: \<^verbatim>\<open>next(e); p\<close>, the call of the continuation whose promise the
    handler drops.

  A call that is awaited or returned has run to its end when the handler goes on. A call
  whose promise is dropped has run as far as its first \<^verbatim>\<open>await\<close> when the handler goes
  on, and the rest of it runs interleaved with the rest of the dispatch, in the order of
  the platform's job queue. That order is not part of this model: see \<open>exec\<close> below.
\<close>

datatype prog =
    Return
  | Throw Error
  | Act "SlopRequest \<times> SlopResponse \<Rightarrow> SlopRequest \<times> SlopResponse" prog
  | Read "SlopRequest \<times> SlopResponse \<Rightarrow> prog"
  | Next "Error option" prog "Error \<Rightarrow> prog"
  | Detach "Error option" prog

text \<open>A call of a method of the response as a step of a handler.\<close>

definition on_res :: "(SlopResponse \<Rightarrow> SlopResponse) \<Rightarrow> SlopRequest \<times> SlopResponse \<Rightarrow> SlopRequest \<times> SlopResponse" where
  "on_res f = (\<lambda>(rq, rs). (rq, f rs))"

section \<open>Registry\<close>

text \<open>
  \<^verbatim>\<open>interface Route { method; path; handlers }\<close> and
  \<^verbatim>\<open>interface Middleware { path; handler }\<close>. The handler of a middleware entry is a
  \<^verbatim>\<open>RouteHandler | ErrorHandler\<close> that the engine casts to the one or the other when it
  calls it; the type parameter of the record is that cast. An error handler takes the
  error first, so it is a handler for each error. The field \<^verbatim>\<open>method\<close> of a route is
  \<open>route_method\<close> here.
\<close>

record Route =
  route_method :: string
  path :: string
  handlers :: "prog list"

record 'h Middleware =
  mw_path :: string
  handler :: 'h

record Slop =
  routes :: "Route list"
  middleware :: "prog Middleware list"
  errorHandlers :: "(Error \<Rightarrow> prog) Middleware list"

definition constructor :: Slop where
  "constructor = \<lparr>routes = [], middleware = [], errorHandlers = []\<rparr>"

definition addRoute :: "string \<Rightarrow> string \<Rightarrow> prog list \<Rightarrow> Slop \<Rightarrow> Slop" where
  "addRoute m p hs this = this\<lparr>routes := routes this @ [\<lparr>route_method = m, path = p, handlers = hs\<rparr>]\<rparr>"

definition get :: "string \<Rightarrow> prog list \<Rightarrow> Slop \<Rightarrow> Slop" where
  "get p hs this = addRoute ''GET'' p hs this"

definition post :: "string \<Rightarrow> prog list \<Rightarrow> Slop \<Rightarrow> Slop" where
  "post p hs this = addRoute ''POST'' p hs this"

text \<open>
  \<^verbatim>\<open>use\<close> files a handler of four parameters under the error handlers and any other
  under the middleware; a handler comes here with that classification made. The first
  argument of \<open>use\<close> is \<open>None\<close> when \<^verbatim>\<open>use\<close> is called with handlers only, and the
  filter is then \<^verbatim>\<open>"*"\<close>; the list holds all the handlers of the call in their order.
\<close>

datatype handler_fn = RouteHandler prog | ErrorHandler "Error \<Rightarrow> prog"

fun use_handlers :: "string \<Rightarrow> handler_fn list \<Rightarrow> Slop \<Rightarrow> Slop" where
  "use_handlers p [] this = this"
| "use_handlers p (RouteHandler h # hs) this =
     use_handlers p hs (this\<lparr>middleware := middleware this @ [\<lparr>mw_path = p, handler = h\<rparr>]\<rparr>)"
| "use_handlers p (ErrorHandler h # hs) this =
     use_handlers p hs (this\<lparr>errorHandlers := errorHandlers this @ [\<lparr>mw_path = p, handler = h\<rparr>]\<rparr>)"

definition use :: "string option \<Rightarrow> handler_fn list \<Rightarrow> Slop \<Rightarrow> Slop" where
  "use pathOrHandler hs this =
     use_handlers (case pathOrHandler of None \<Rightarrow> ''*'' | Some p \<Rightarrow> p) hs this"

section \<open>Dispatcher\<close>

text \<open>
  The state of one dispatch: the request and the response objects that every handler
  shares, and two lists that the program does not keep and that only the theorems read:
  the handlers called so far, and the errors of the rejected promises that nothing
  awaits and nothing catches, which the platform reports as unhandled rejections outside
  \<^verbatim>\<open>handleRequest\<close>. A middleware entry and an error handler are named by their index
  in their list, a route handler by the index of its route and its index in the route's
  chain.
\<close>

datatype event = MiddlewareCall nat | RouteCall nat nat | ErrorCall nat

record dispatch =
  req :: SlopRequest
  res :: SlopResponse
  calls :: "event list"
  unhandled :: "Error list"

text \<open>
  The promise of a handler or of the continuation resolves, or rejects with an error.
  \<open>Interleaved\<close> is the outcome of a dispatch in which a dropped call of the
  continuation is still running when the handler goes on: what happens next depends on
  the order of the job queue, and nothing is said about it here.
\<close>

datatype outcome = Interleaved | Rejected Error dispatch | Resolved dispatch

text \<open>
  The error that the platform throws when a call finds no room on the stack.
\<close>

definition stack_overflow :: Error where
  "stack_overflow = Error ''RangeError: Maximum call stack size exceeded''"

type_synonym NextFunction = "Error option \<Rightarrow> dispatch \<Rightarrow> outcome"

definition called :: "event \<Rightarrow> dispatch \<Rightarrow> dispatch" where
  "called ev s = s\<lparr>calls := calls s @ [ev]\<rparr>"

text \<open>
  Running a handler that was given the continuation \<open>next\<close>. The continuation of the
  engine awaits nothing but the handlers it calls, so a dropped call that has called no
  handler has settled when the handler goes on: it has changed what \<open>next\<close> says it
  changes, and when its promise is rejected the error is unhandled. A dropped call that
  has called a handler is still running, and the outcome is \<open>Interleaved\<close>; so is the
  outcome when the call fails for want of stack, where a throw at the call and a rejected
  promise are not told apart.
\<close>

primrec exec :: "NextFunction \<Rightarrow> prog \<Rightarrow> dispatch \<Rightarrow> outcome" where
  "exec next Return s = Resolved s"
| "exec next (Throw e) s = Rejected e s"
| "exec next (Act f p) s =
     exec next p (s\<lparr>req := fst (f (req s, res s)), res := snd (f (req s, res s))\<rparr>)"
| "exec next (Read f) s = exec next (f (req s, res s)) s"
| "exec next (Next e p q) s =
     (case next e s of
        Interleaved \<Rightarrow> Interleaved
      | Resolved s' \<Rightarrow> exec next p s'
      | Rejected x s' \<Rightarrow> exec next (q x) s')"
| "exec next (Detach e p) s =
     (case next e s of
        Interleaved \<Rightarrow> Interleaved
      | Resolved s' \<Rightarrow> if calls s' = calls s then exec next p s' else Interleaved
      | Rejected x s' \<Rightarrow>
          if calls s' = calls s \<and> x \<noteq> stack_overflow
          then exec next p (s'\<lparr>unhandled := unhandled s' @ [x]\<rparr>)
          else Interleaved)"

text \<open>The filter of a middleware entry: \<^verbatim>\<open>mw.path === "*" || path.startsWith(mw.path)\<close>.\<close>

definition applies :: "'h Middleware \<Rightarrow> string \<Rightarrow> bool" where
  "applies mw p = (mw_path mw = ''*'' \<or> startsWith p (mw_path mw))"

text \<open>The continuation that the error handlers get: \<^verbatim>\<open>() => Promise.resolve()\<close>.\<close>

definition noop :: NextFunction where
  "noop e s = Resolved s"

text \<open>
  The error branch of \<^verbatim>\<open>next\<close>: the loop over \<^verbatim>\<open>this.errorHandlers\<close> from index \<open>i\<close>
  on, and \<^verbatim>\<open>throw err\<close> after it.
\<close>

fun run_error_handlers :: "Error \<Rightarrow> string \<Rightarrow> nat \<Rightarrow> (Error \<Rightarrow> prog) Middleware list \<Rightarrow> dispatch \<Rightarrow> outcome" where
  "run_error_handlers err p i [] s = Rejected err s"
| "run_error_handlers err p i (eh # ehs) s =
     (if applies eh p then
        (case exec noop (handler eh err) (called (ErrorCall i) s) of
           Resolved s' \<Rightarrow>
             if body (res s') \<noteq> None then Resolved s'
             else run_error_handlers err p (Suc i) ehs s'
         | out \<Rightarrow> out)
      else run_error_handlers err p (Suc i) ehs s)"

text \<open>
  The scan for the route: the first route from index \<open>i\<close> on with the method of the
  request and a pattern that matches its path, with its index and the parameters of the
  match.
\<close>

fun find_route :: "string \<Rightarrow> string \<Rightarrow> nat \<Rightarrow> Route list \<Rightarrow> (nat \<times> Route \<times> (string \<rightharpoonup> string)) option" where
  "find_route m p i [] = None"
| "find_route m p i (route # rs) =
     (if route_method route = m then
        (let pathMatch = matchPath p (path route)
         in if matched pathMatch then Some (i, route, params pathMatch)
            else find_route m p (Suc i) rs)
      else find_route m p (Suc i) rs)"

text \<open>The loop over \<^verbatim>\<open>matchedRoute.handlers\<close> from index \<open>j\<close> on.\<close>

fun run_handlers :: "NextFunction \<Rightarrow> nat \<Rightarrow> nat \<Rightarrow> prog list \<Rightarrow> dispatch \<Rightarrow> outcome" where
  "run_handlers next ri j [] s = Resolved s"
| "run_handlers next ri j (h # hs) s =
     (case exec next h (called (RouteCall ri j) s) of
        Resolved s' \<Rightarrow>
          if body (res s') \<noteq> None then Resolved s'
          else run_handlers next ri (Suc j) hs s'
      | out \<Rightarrow> out)"

text \<open>
  The body of the closure \<^verbatim>\<open>next\<close>. The closure passes itself to the route handlers;
  \<open>self\<close> is that reference. \<open>m\<close> and \<open>p\<close> are the \<^verbatim>\<open>method\<close> and \<^verbatim>\<open>path\<close> that
  \<^verbatim>\<open>handleRequest\<close> took from the request before any handler ran.
\<close>

definition next_body :: "Slop \<Rightarrow> string \<Rightarrow> string \<Rightarrow> NextFunction \<Rightarrow> NextFunction" where
  "next_body this m p self err s =
     (case err of
        Some e \<Rightarrow> run_error_handlers e p 0 (errorHandlers this) s
      | None \<Rightarrow>
          (case find_route m p 0 (routes this) of
             None \<Rightarrow> Resolved s
           | Some (ri, matchedRoute, ps) \<Rightarrow>
               run_handlers self ri 0 (handlers matchedRoute)
                 (s\<lparr>req := (req s)\<lparr>req_params := ps\<rparr>\<rparr>)))"

text \<open>
  A route handler that calls the continuation enters the closure again, and the closure
  runs the chain of the matched route from its first handler again, one call inside the
  other. \<open>next_fn n\<close> is the closure when the stack has room for \<open>n\<close> such calls inside
  it; the call that finds no room fails with the platform's error.
\<close>

primrec next_fn :: "nat \<Rightarrow> Slop \<Rightarrow> string \<Rightarrow> string \<Rightarrow> NextFunction" where
  "next_fn 0 this m p = next_body this m p (\<lambda>e s. Rejected stack_overflow s)"
| "next_fn (Suc n) this m p = next_body this m p (next_fn n this m p)"

text \<open>The loop over \<^verbatim>\<open>this.middleware\<close> from index \<open>i\<close> on.\<close>

fun run_middleware :: "NextFunction \<Rightarrow> string \<Rightarrow> nat \<Rightarrow> prog Middleware list \<Rightarrow> dispatch \<Rightarrow> outcome" where
  "run_middleware next p i [] s = Resolved s"
| "run_middleware next p i (mw # mws) s =
     (if applies mw p then
        (case exec next (handler mw) (called (MiddlewareCall i) s) of
           Resolved s' \<Rightarrow>
             if body (res s') \<noteq> None then Resolved s'
             else run_middleware next p (Suc i) mws s'
         | out \<Rightarrow> out)
      else run_middleware next p (Suc i) mws s)"

text \<open>
  What the adapter hands to \<^verbatim>\<open>handleRequest\<close>: the method and the URL of the platform's
  request, the path and the query of the parsed URL, the headers, and the body as the
  parsing at the head of \<^verbatim>\<open>handleRequest\<close> leaves it (\<^verbatim>\<open>null\<close> when there is none or
  when it cannot be read). What \<^verbatim>\<open>handleRequest\<close> returns is the platform's
  \<^verbatim>\<open>Response\<close>, here the body, the status and the headers that \<^verbatim>\<open>handleRequest\<close>
  hands to its constructor (the platform adds a content type of its own to a text body
  that has none).
\<close>

record Request =
  rq_method :: string
  rq_url :: string
  rq_headers :: Headers
  rq_pathname :: string
  rq_query :: "string \<rightharpoonup> string"
  rq_body :: HttpBody

record Response =
  resp_body :: string
  resp_status :: nat
  resp_headers :: Headers

definition initial :: "Request \<Rightarrow> dispatch" where
  "initial request =
     \<lparr>req = \<lparr>req_method = rq_method request, req_url = rq_url request,
              req_headers = rq_headers request, req_path = rq_pathname request,
              req_params = Map.empty, req_query = rq_query request,
              req_body = rq_body request\<rparr>,
      res = \<lparr>statusCode = 200, headers = Map.empty, body = None\<rparr>,
      calls = [], unhandled = []\<rparr>"

text \<open>
  The constructor \<^verbatim>\<open>new Response(body, { status, headers })\<close> belongs to the platform
  and follows the Fetch standard: it throws a \<^verbatim>\<open>RangeError\<close> when the status is not in
  the range 200 to 599, and a \<^verbatim>\<open>TypeError\<close> when the body is not \<^verbatim>\<open>null\<close> and the
  status is a null body status (101, 103, 204, 205 or 304). \<open>constructs st\<close>: the
  constructor returns a response for a body that is not \<^verbatim>\<open>null\<close> and the status \<open>st\<close>.
\<close>

definition null_body_status :: "nat \<Rightarrow> bool" where
  "null_body_status st = (st = 101 \<or> st = 103 \<or> st = 204 \<or> st = 205 \<or> st = 304)"

definition constructs :: "nat \<Rightarrow> bool" where
  "constructs st = (200 \<le> st \<and> st \<le> 599 \<and> \<not> null_body_status st)"

text \<open>
  The \<^verbatim>\<open>try\<close> block of \<^verbatim>\<open>handleRequest\<close> up to the point where the response is
  built: the middleware loop, then \<^verbatim>\<open>await next()\<close> when no middleware set a body.
\<close>

definition run_chain :: "nat \<Rightarrow> Slop \<Rightarrow> Request \<Rightarrow> outcome" where
  "run_chain n this request =
     (let m = rq_method request;
          p = rq_pathname request;
          next = next_fn n this m p
      in case run_middleware next p 0 (middleware this) (initial request) of
           Resolved s \<Rightarrow> if body (res s) = None then next None s else Resolved s
         | out \<Rightarrow> out)"

text \<open>
  \<^verbatim>\<open>handleRequest\<close>: the response that is built after the chain, and the \<^verbatim>\<open>catch\<close>
  around both, which also catches what the constructor of the response throws. \<open>n\<close> is
  the room on the stack, as for \<open>next_fn\<close>. The result is \<open>None\<close> when the outcome of
  the chain is \<open>Interleaved\<close>.
\<close>

definition handleRequest :: "nat \<Rightarrow> Slop \<Rightarrow> Request \<Rightarrow> Response option" where
  "handleRequest n this request =
     (case run_chain n this request of
        Interleaved \<Rightarrow> None
      | Rejected err s \<Rightarrow>
          Some \<lparr>resp_body = ''Internal Server Error'', resp_status = 500, resp_headers = Map.empty\<rparr>
      | Resolved s \<Rightarrow>
          (case body (res s) of
             None \<Rightarrow> Some \<lparr>resp_body = ''Not Found'', resp_status = 404, resp_headers = Map.empty\<rparr>
           | Some b \<Rightarrow>
               if constructs (statusCode (res s))
               then Some \<lparr>resp_body = b, resp_status = statusCode (res s),
                           resp_headers = headers (res s)\<rparr>
               else Some \<lparr>resp_body = ''Internal Server Error'', resp_status = 500,
                           resp_headers = Map.empty\<rparr>))"

section \<open>Sub-router mount\<close>

text \<open>
  \<^verbatim>\<open>useRouter\<close> reads the arrays of one engine object and pushes onto the arrays of
  another, and the two may be the same object. The engines therefore live in a store
  that maps a reference to the engine object; \<open>this\<close> and \<open>router\<close> are references.
  An engine keeps the three arrays that its constructor made: no method assigns to the
  fields or hands an array to another engine, so two different engines never share an
  array, and the store holds each engine with its own lists.
\<close>

type_synonym engines = "nat \<Rightarrow> Slop"

text \<open>
  The path of a copy: \<^verbatim>\<open>path === "/" ? route.path : `${path}${route.path}`\<close>, where
  \<open>prefix\<close> is the parameter \<^verbatim>\<open>path\<close> of \<^verbatim>\<open>useRouter\<close>.
\<close>

definition fullPath :: "string \<Rightarrow> string \<Rightarrow> string" where
  "fullPath prefix p = (if prefix = ''/'' then p else prefix @ p)"

text \<open>
  The two \<^verbatim>\<open>for ... of\<close> loops of \<^verbatim>\<open>useRouter\<close>. The iterator of an array reads the
  array as it is when each step begins: step \<open>i\<close> runs when \<open>i\<close> is below the present
  length of \<^verbatim>\<open>router.routes\<close>, and pushes the copy of element \<open>i\<close> onto
  \<^verbatim>\<open>this.routes\<close>. The first argument bounds the number of steps; a loop that needs
  more steps has no result.
\<close>

primrec mount_routes :: "nat \<Rightarrow> string \<Rightarrow> nat \<Rightarrow> nat \<Rightarrow> nat \<Rightarrow> engines \<Rightarrow> engines option" where
  "mount_routes 0 prefix this router i h =
     (if i < length (routes (h router)) then None else Some h)"
| "mount_routes (Suc fuel) prefix this router i h =
     (if i < length (routes (h router)) then
        (let route = routes (h router) ! i
         in mount_routes fuel prefix this router (Suc i)
              (h(this := (h this)\<lparr>routes := routes (h this) @ [route\<lparr>path := fullPath prefix (path route)\<rparr>]\<rparr>)))
      else Some h)"

primrec mount_middleware :: "nat \<Rightarrow> string \<Rightarrow> nat \<Rightarrow> nat \<Rightarrow> nat \<Rightarrow> engines \<Rightarrow> engines option" where
  "mount_middleware 0 prefix this router i h =
     (if i < length (middleware (h router)) then None else Some h)"
| "mount_middleware (Suc fuel) prefix this router i h =
     (if i < length (middleware (h router)) then
        (let mw = middleware (h router) ! i
         in mount_middleware fuel prefix this router (Suc i)
              (h(this := (h this)\<lparr>middleware := middleware (h this) @ [mw\<lparr>mw_path := fullPath prefix (mw_path mw)\<rparr>]\<rparr>)))
      else Some h)"

definition useRouter :: "nat \<Rightarrow> string \<Rightarrow> nat \<Rightarrow> nat \<Rightarrow> engines \<Rightarrow> engines option" where
  "useRouter fuel prefix this router h =
     (case mount_routes fuel prefix this router 0 h of
        None \<Rightarrow> None
      | Some h' \<Rightarrow> mount_middleware fuel prefix this router 0 h')"

section \<open>Notions for the properties\<close>

subsection \<open>The parameters of a match\<close>

text \<open>
  \<open>bind_own obj z\<close>: what one round of the loop of \<^verbatim>\<open>matchPath\<close> does to the
  parameter object for the pair \<open>z\<close> of a pattern segment and an actual segment that it
  accepts. \<open>reserved_parameter seg\<close>: the pattern segment \<open>seg\<close> is the parameter named
  \<^verbatim>\<open>__proto__\<close>.
\<close>

definition bind_own :: "(string \<rightharpoonup> string) \<Rightarrow> string \<times> string \<Rightarrow> (string \<rightharpoonup> string)" where
  "bind_own obj z = (if startsWith (fst z) '':'' then assign obj (substring (fst z) 1) (snd z) else obj)"

definition reserved_parameter :: "string \<Rightarrow> bool" where
  "reserved_parameter seg = (startsWith seg '':'' \<and> substring seg 1 = ''__proto__'')"


subsection \<open>The calls of a dispatch\<close>



fun calls_of :: "outcome \<Rightarrow> event list" where
  "calls_of Interleaved = []"
| "calls_of (Rejected e s) = calls s"
| "calls_of (Resolved s) = calls s"

fun unhandled_of :: "outcome \<Rightarrow> Error list" where
  "unhandled_of Interleaved = []"
| "unhandled_of (Rejected e s) = unhandled s"
| "unhandled_of (Resolved s) = unhandled s"




subsection \<open>Route selection\<close>

text \<open>
  The condition under which the dispatcher takes a route: its method is the method of
  the request and its pattern matches the path of the request.
\<close>

definition selects :: "string \<Rightarrow> string \<Rightarrow> Route \<Rightarrow> bool" where
  "selects m p route = (route_method route = m \<and> matched (matchPath p (path route)))"

subsection \<open>Error handlers\<close>

text \<open>
  The error phase as the specification words it: the error handlers whose filter accepts
  the path, with their indices, in registration order; they are called one after the
  other, each with the continuation that does nothing, until the response has a body
  after a call; when none is left the error is thrown again.
\<close>

definition applicable_error_handlers :: "Slop \<Rightarrow> string \<Rightarrow> (nat \<times> (Error \<Rightarrow> prog) Middleware) list" where
  "applicable_error_handlers this p =
     filter (\<lambda>entry. applies (snd entry) p) (enumerate 0 (errorHandlers this))"


text \<open>
  \<open>signals err\<close> is the handler \<^verbatim>\<open>(req, res, next) => next(err)\<close>.
\<close>

definition signals :: "Error \<Rightarrow> prog" where
  "signals err = Next (Some err) Return Throw"

subsection \<open>Handlers that do not enter the route phase\<close>


text \<open>
  The engine a sub-router is mounted into, as \<^verbatim>\<open>useRouter\<close> leaves it when the two
  engines are different objects.
\<close>

definition mounted :: "string \<Rightarrow> Slop \<Rightarrow> Slop \<Rightarrow> Slop" where
  "mounted prefix child parent =
     parent\<lparr>routes := routes parent @ map (\<lambda>route. route\<lparr>path := fullPath prefix (path route)\<rparr>) (routes child),
            middleware := middleware parent @
              map (\<lambda>mw. mw\<lparr>mw_path := fullPath prefix (mw_path mw)\<rparr>) (middleware child)\<rparr>"

section \<open>Example engines\<close>

text \<open>
  \<open>answers text\<close> is the handler \<^verbatim>\<open>(req, res) => res.send(text)\<close>; \<open>http_request\<close>
  is a request without headers, query and body. The middleware of \<open>continuing_responder\<close> is
  \<^verbatim>\<open>async (req, res, next) => { res.send("mw"); await next() }\<close>, that of
  \<open>no_content_responder\<close> is \<^verbatim>\<open>(req, res) => { res.status(204).send("x") }\<close>, that of
  \<open>swallowing_middleware\<close> is
  \<^verbatim>\<open>async (req, res, next) => { try { await next(err) } catch (x) {} }\<close>, and that of
  \<open>dropping_middleware\<close> is \<^verbatim>\<open>(req, res, next) => { next(err) }\<close>. The first handler
  of the route of \<open>reentrant\<close> is \<^verbatim>\<open>(req, res, next) => next()\<close>.
\<close>

definition http_request :: "string \<Rightarrow> string \<Rightarrow> Request" where
  "http_request m p =
     \<lparr>rq_method = m, rq_url = ''http://localhost'' @ p, rq_headers = Map.empty,
      rq_pathname = p, rq_query = Map.empty, rq_body = None\<rparr>"

definition answers :: "string \<Rightarrow> prog" where
  "answers text = Act (on_res (send (Some text))) Return"

definition two_responders :: Slop where
  "two_responders =
     get ''/x'' [answers ''route'']
       (use None [RouteHandler (answers ''first''), RouteHandler (answers ''second'')] constructor)"

definition silent_middleware :: Slop where
  "silent_middleware = get ''/x'' [answers ''hi''] (use None [RouteHandler Return] constructor)"

definition users_routes :: "prog list \<Rightarrow> prog list \<Rightarrow> Route list" where
  "users_routes hs1 hs2 =
     [\<lparr>route_method = ''GET'', path = ''/users/:id'', handlers = hs1\<rparr>,
      \<lparr>route_method = ''GET'', path = ''/users/me'', handlers = hs2\<rparr>]"

definition users_app :: Slop where
  "users_app = get ''/users/me'' [answers ''literal''] (get ''/users/:id'' [answers ''parameter''] constructor)"

definition status_only :: Slop where
  "status_only = post ''/users'' [Act (on_res (status 201)) Return] constructor"



definition failing_middleware :: Slop where
  "failing_middleware =
     get ''/x'' [answers ''late''] (use None [RouteHandler (signals (Error ''boom''))] constructor)"





definition dropping_middleware :: Slop where
  "dropping_middleware =
     get ''/x'' [answers ''late''] (use None [RouteHandler (Detach (Some (Error ''boom'')) Return)] constructor)"

definition reentrant :: Slop where
  "reentrant = get ''/x'' [Next None Return Throw, answers ''h''] constructor"

definition ping_engines :: engines where
  "ping_engines = (\<lambda>x. constructor)(Suc 0 := get ''/ping'' [answers ''pong''] constructor)"

section \<open>Properties of the path matcher\<close>

lemma startsWith_colon: "startsWith r '':'' = named_parameter r"
  by (cases r) (auto simp: startsWith_def named_parameter_def)

lemma substring_one: "substring r (Suc 0) = parameter_name r"
  by (cases r) (auto simp: substring_def parameter_name_def)

lemma match_parts_accepts:
  "list_all (\<lambda>z. segment_accepts (fst z) (snd z)) zs \<Longrightarrow>
   match_parts zs ps = \<lparr>matched = True, params = foldl bind_own ps zs\<rparr>"
proof (induction zs ps rule: match_parts.induct)
  case (1 ps)
  show ?case by simp
next
  case (2 r a zs ps)
  show ?case
  proof (cases "startsWith r '':''")
    case True
    with 2 have "match_parts zs (assign ps (substring r 1) a) =
        \<lparr>matched = True, params = foldl bind_own (assign ps (substring r 1) a) zs\<rparr>"
      by simp
    moreover have "bind_own ps (r, a) = assign ps (substring r 1) a"
      using True by (simp add: bind_own_def)
    ultimately show ?thesis using True by simp
  next
    case False
    with 2 have eq: "r = a" by (simp add: segment_accepts_def startsWith_colon)
    with 2 False have "match_parts zs ps = \<lparr>matched = True, params = foldl bind_own ps zs\<rparr>"
      by simp
    moreover have "bind_own ps (r, a) = ps" using False by (simp add: bind_own_def)
    ultimately show ?thesis using False eq by simp
  qed
qed

lemma match_parts_rejects:
  "\<not> list_all (\<lambda>z. segment_accepts (fst z) (snd z)) zs \<Longrightarrow>
   match_parts zs ps = \<lparr>matched = False, params = Map.empty\<rparr>"
  by (induction zs ps rule: match_parts.induct)
     (auto simp: startsWith_colon segment_accepts_def)

lemma list_all2_zip:
  "length xs = length ys \<Longrightarrow>
   list_all2 P xs ys = list_all (\<lambda>z. P (fst z) (snd z)) (zip xs ys)"
  by (induction xs ys rule: list_induct2) auto

lemma bind_own_reference:
  "\<not> reserved_parameter (fst z) \<Longrightarrow> bind_own obj z = bind_segment obj z"
  by (auto simp: bind_own_def bind_segment_def reserved_parameter_def assign_def
        startsWith_colon substring_one)

lemma foldl_bind_own_reference:
  "\<forall>z \<in> set zs. \<not> reserved_parameter (fst z) \<Longrightarrow>
   foldl bind_own obj zs = foldl bind_segment obj zs"
proof (induction zs arbitrary: obj)
  case Nil
  show ?case by simp
next
  case (Cons z zs)
  then have "bind_own obj z = bind_segment obj z" by (simp add: bind_own_reference)
  moreover from Cons have "foldl bind_own (bind_segment obj z) zs = foldl bind_segment (bind_segment obj z) zs"
    by simp
  ultimately show ?case by simp
qed

lemma matchPath_reference:
  assumes "\<forall>seg \<in> set (split r). \<not> reserved_parameter seg"
  shows "matchPath a r = match_reference a r"
proof (cases "r = a")
  case True
  then show ?thesis by (simp add: matchPath_def match_reference_def)
next
  case False
  show ?thesis
  proof (cases "length (split r) = length (split a)")
    case len: True
    show ?thesis
    proof (cases "list_all2 segment_accepts (split r) (split a)")
      case True
      with len have "list_all (\<lambda>z. segment_accepts (fst z) (snd z)) (zip (split r) (split a))"
        by (simp add: list_all2_zip)
      from match_parts_accepts [OF this]
      have "match_parts (zip (split r) (split a)) Map.empty =
          \<lparr>matched = True, params = foldl bind_own Map.empty (zip (split r) (split a))\<rparr>" .
      moreover have "\<forall>z \<in> set (zip (split r) (split a)). \<not> reserved_parameter (fst z)"
        using assms by (auto dest: set_zip_leftD)
      then have "foldl bind_own Map.empty (zip (split r) (split a)) =
          foldl bind_segment Map.empty (zip (split r) (split a))"
        by (rule foldl_bind_own_reference)
      ultimately show ?thesis using False len True
        by (auto simp: matchPath_def match_reference_def Let_def)
    next
      case no: False
      with len have "\<not> list_all (\<lambda>z. segment_accepts (fst z) (snd z)) (zip (split r) (split a))"
        by (simp add: list_all2_zip)
      from match_parts_rejects [OF this] False len no show ?thesis
        by (auto simp: matchPath_def match_reference_def Let_def)
    qed
  next
    case False
    with \<open>r \<noteq> a\<close> show ?thesis
      by (auto simp: matchPath_def match_reference_def Let_def)
  qed
qed

lemma split_users_id: "split ''/users/:id'' = ['''', ''users'', '':id'']"
  by (simp add: split_def)

lemma split_users_42: "split ''/users/42'' = ['''', ''users'', ''42'']"
  by (simp add: split_def)

lemma split_users_42_profile: "split ''/users/42/profile'' = ['''', ''users'', ''42'', ''profile'']"
  by (simp add: split_def)

lemma matchPath_users_42:
  "matchPath ''/users/42'' ''/users/:id'' = \<lparr>matched = True, params = [''id'' \<mapsto> ''42'']\<rparr>"
  by (simp add: matchPath_def split_users_id split_users_42 startsWith_def substring_def assign_def)

lemma matchPath_users_42_profile:
  "matchPath ''/users/42/profile'' ''/users/:id'' = \<lparr>matched = False, params = Map.empty\<rparr>"
  by (simp add: matchPath_def split_users_id split_users_42_profile)

lemma matchPath_users_me:
  "matchPath ''/users/me'' ''/users/:id'' = \<lparr>matched = True, params = [''id'' \<mapsto> ''me'']\<rparr>"
  by (simp add: matchPath_def split_def startsWith_def substring_def assign_def)

text \<open>
  Claim C4. The code does not do what the claim says for the parameter named
  \<^verbatim>\<open>__proto__\<close>. The pattern \<^verbatim>\<open>/:__proto__\<close> has the two segments of the path
  \<^verbatim>\<open>/x\<close>, and its second segment begins with a colon; \<open>matchPath\<close> reports a match,
  but with no parameter, where the claim and the reference algorithm of the specification
  bind the name to \<open>x\<close>. (For a pattern without that parameter \<open>matchPath\<close> is the
  reference algorithm: \<open>matchPath_reference\<close>.)
\<close>

theorem matchPath_proto_parameter_unbound:
  "split ''/:__proto__'' = ['''', '':__proto__''] \<and>
   matchPath ''/x'' ''/:__proto__'' = \<lparr>matched = True, params = Map.empty\<rparr> \<and>
   match_reference ''/x'' ''/:__proto__'' = \<lparr>matched = True, params = [''__proto__'' \<mapsto> ''x'']\<rparr>"
  by (simp add: matchPath_def match_reference_def split_def startsWith_def substring_def assign_def
        segment_accepts_def named_parameter_def parameter_name_def bind_segment_def)

subsection \<open>Parameter names that occur more than once\<close>

lemma bind_own_apply:
  "bind_own obj z n =
     (if startsWith (fst z) '':'' \<and> substring (fst z) (Suc 0) = n \<and> n \<noteq> ''__proto__''
      then Some (snd z) else obj n)"
  by (simp add: bind_own_def assign_def)

lemma foldl_bind_last:
  "i < length zs \<Longrightarrow> startsWith (fst (zs ! i)) '':'' \<Longrightarrow>
   substring (fst (zs ! i)) (Suc 0) \<noteq> ''__proto__'' \<Longrightarrow>
   \<forall>j. i < j \<and> j < length zs \<and> startsWith (fst (zs ! j)) '':'' \<longrightarrow>
       substring (fst (zs ! j)) (Suc 0) \<noteq> substring (fst (zs ! i)) (Suc 0) \<Longrightarrow>
   foldl bind_own ps zs (substring (fst (zs ! i)) (Suc 0)) = Some (snd (zs ! i))"
proof (induction zs rule: rev_induct)
  case Nil
  then show ?case by simp
next
  case (snoc z zs)
  show ?case
  proof (cases "i = length zs")
    case True
    with snoc.prems
      bind_own_apply [of "foldl bind_own ps zs" z "substring (fst z) (Suc 0)"]
    show ?thesis by simp
  next
    case False
    with snoc.prems have i: "i < length zs" by simp
    then have at: "(zs @ [z]) ! i = zs ! i" by (simp add: nth_append)
    from snoc.prems(2) at have np: "startsWith (fst (zs ! i)) '':''" by simp
    from snoc.prems(3) at have ok: "substring (fst (zs ! i)) (Suc 0) \<noteq> ''__proto__''" by simp
    have later: "\<forall>j. i < j \<and> j < length zs \<and> startsWith (fst (zs ! j)) '':'' \<longrightarrow>
       substring (fst (zs ! j)) (Suc 0) \<noteq> substring (fst (zs ! i)) (Suc 0)"
    proof (intro allI impI)
      fix j assume j: "i < j \<and> j < length zs \<and> startsWith (fst (zs ! j)) '':''"
      then have "(zs @ [z]) ! j = zs ! j" by (simp add: nth_append)
      with snoc.prems(4) [rule_format, of j] j at
      show "substring (fst (zs ! j)) (Suc 0) \<noteq> substring (fst (zs ! i)) (Suc 0)" by simp
    qed
    from snoc.IH [OF i np ok later]
    have ih: "foldl bind_own ps zs (substring (fst (zs ! i)) (Suc 0)) = Some (snd (zs ! i))" .
    have "startsWith (fst z) '':'' \<longrightarrow> substring (fst z) (Suc 0) \<noteq> substring (fst (zs ! i)) (Suc 0)"
      using snoc.prems(4) [rule_format, of "length zs"] i at by simp
    with ih at
      bind_own_apply [of "foldl bind_own ps zs" z "substring (fst (zs ! i)) (Suc 0)"]
    show ?thesis by auto
  qed
qed

text \<open>
  Claim C9, as amended. When the actual path is not the pattern itself, has as many
  segments as the pattern and agrees with it on every literal segment, \<open>matchPath\<close>
  succeeds, and a name other than \<^verbatim>\<open>__proto__\<close> is bound to the actual segment at the
  rightmost position where the pattern has that name: a later segment of the same name
  replaces the binding of an earlier one.
\<close>

theorem matchPath_last_binding_wins:
  assumes "routePath \<noteq> actualPath"
    and "length (split routePath) = length (split actualPath)"
    and "\<forall>k. k < length (split routePath) \<and> \<not> startsWith (split routePath ! k) '':'' \<longrightarrow>
           split routePath ! k = split actualPath ! k"
    and "i < length (split routePath)"
    and "startsWith (split routePath ! i) '':''"
    and "substring (split routePath ! i) 1 \<noteq> ''__proto__''"
    and "\<forall>j. i < j \<and> j < length (split routePath) \<and> startsWith (split routePath ! j) '':'' \<longrightarrow>
           substring (split routePath ! j) 1 \<noteq> substring (split routePath ! i) 1"
  shows "matched (matchPath actualPath routePath) \<and>
         params (matchPath actualPath routePath) (substring (split routePath ! i) 1) = Some (split actualPath ! i)"
proof -
  let ?rs = "split routePath" and ?as = "split actualPath"
  let ?zs = "zip ?rs ?as"
  have len: "length ?zs = length ?rs" using assms(2) by simp
  have ok: "list_all (\<lambda>z. segment_accepts (fst z) (snd z)) ?zs"
    unfolding list_all_length
  proof (intro allI impI)
    fix k assume "k < length ?zs"
    with len assms(2) assms(3) [rule_format, of k]
    show "segment_accepts (fst (?zs ! k)) (snd (?zs ! k))"
      by (auto simp: segment_accepts_def startsWith_colon)
  qed
  have res: "matchPath actualPath routePath =
      \<lparr>matched = True, params = foldl bind_own Map.empty ?zs\<rparr>"
    using assms(1,2) match_parts_accepts [OF ok] by (simp add: matchPath_def Let_def)
  have i: "i < length ?zs" using assms(4) len by simp
  have zi: "?zs ! i = (?rs ! i, ?as ! i)" using assms(2,4) by simp
  have np: "startsWith (fst (?zs ! i)) '':''" using assms(5) zi by simp
  have free: "substring (fst (?zs ! i)) (Suc 0) \<noteq> ''__proto__''" using assms(6) zi by simp
  have later: "\<forall>j. i < j \<and> j < length ?zs \<and> startsWith (fst (?zs ! j)) '':'' \<longrightarrow>
       substring (fst (?zs ! j)) (Suc 0) \<noteq> substring (fst (?zs ! i)) (Suc 0)"
  proof (intro allI impI)
    fix j assume j: "i < j \<and> j < length ?zs \<and> startsWith (fst (?zs ! j)) '':''"
    with len assms(2) have "?zs ! j = (?rs ! j, ?as ! j)" by simp
    with j len zi assms(7) [rule_format, of j]
    show "substring (fst (?zs ! j)) (Suc 0) \<noteq> substring (fst (?zs ! i)) (Suc 0)"
      by simp
  qed
  from foldl_bind_last [OF i np free later, of Map.empty] zi res show ?thesis
    by simp
qed

lemma split_dup: "split ''/:a/x/:a'' = ['''', '':a'', ''x'', '':a'']"
  by (simp add: split_def)

lemma split_dup_actual: "split ''/1/x/2'' = ['''', ''1'', ''x'', ''2'']"
  by (simp add: split_def)

text \<open>
  The pattern \<^verbatim>\<open>/:a/x/:a\<close> and the path \<^verbatim>\<open>/1/x/2\<close>: the name \<open>a\<close> is bound to \<open>2\<close>.
\<close>

theorem matchPath_last_binding_wins_witness:
  "matched (matchPath ''/1/x/2'' ''/:a/x/:a'') \<and>
   params (matchPath ''/1/x/2'' ''/:a/x/:a'') ''a'' = Some ''2''"
  using matchPath_last_binding_wins [of "''/:a/x/:a''" "''/1/x/2''" 3]
  by (simp add: split_dup split_dup_actual startsWith_def substring_def less_Suc_eq nth_Cons')

text \<open>
  The claim C9 as it was stated fails for the request path that is the pattern itself:
  the comparison of the two strings at the head of \<open>matchPath\<close> answers before any
  segment is read, and the parameter map is empty.
\<close>

theorem matchPath_identical_path_binds_nothing:
  "split ''/:a/:a'' = ['''', '':a'', '':a''] \<and>
   matched (matchPath ''/:a/:a'' ''/:a/:a'') \<and>
   params (matchPath ''/:a/:a'' ''/:a/:a'') ''a'' = None"
  by (simp add: matchPath_def split_def)

section \<open>The calls a handler and a loop can add\<close>























section \<open>The error phase\<close>











lemma none_applicable:
  "\<forall>eh \<in> set (errorHandlers this). \<not> applies eh p \<Longrightarrow> applicable_error_handlers this p = []"
  by (auto simp: applicable_error_handlers_def filter_empty_conv in_set_enumerate_eq)

section \<open>The middleware loop\<close>

lemmas example_defs =
  http_request_def answers_def two_responders_def silent_middleware_def
  constructs_def null_body_status_def
  get_def addRoute_def use_def constructor_def initial_def called_def on_res_def send_def
  status_def applies_def startsWith_def




lemma run_chain_after_middleware:
  "run_middleware (next_fn n this (rq_method request) (rq_pathname request))
     (rq_pathname request) 0 (middleware this) (initial request) = out \<Longrightarrow>
   run_chain n this request =
     (case out of
        Resolved s \<Rightarrow>
          if body (res s) = None
          then next_fn n this (rq_method request) (rq_pathname request) None s
          else Resolved s
      | out \<Rightarrow> out)"
  by (simp add: run_chain_def Let_def)








section \<open>The route phase\<close>

lemma find_route_takeWhile:
  "find_route m p i rs =
     (let k = length (takeWhile (\<lambda>r. \<not> selects m p r) rs)
      in if k < length rs then Some (i + k, rs ! k, params (matchPath p (path (rs ! k)))) else None)"
  by (induction rs arbitrary: i) (auto simp: Let_def selects_def)

lemma find_route_None: "(find_route m p i rs = None) = (\<forall>r \<in> set rs. \<not> selects m p r)"
proof -
  have "(length (takeWhile (\<lambda>r. \<not> selects m p r) rs) < length rs) = (\<exists>r \<in> set rs. selects m p r)"
    by (induction rs) auto
  then show ?thesis by (auto simp: find_route_takeWhile Let_def)
qed

lemma find_route_Some:
  "(find_route m p 0 rs = Some (k, r, ps)) =
     (k < length rs \<and> r = rs ! k \<and> selects m p r \<and> (\<forall>j < k. \<not> selects m p (rs ! j)) \<and>
      ps = params (matchPath p (path r)))"
proof -
  let ?P = "\<lambda>r. \<not> selects m p r"
  let ?k = "length (takeWhile ?P rs)"
  have first: "\<not> ?P (rs ! ?k)" if "?k < length rs"
    using that by (rule nth_length_takeWhile)
  have before: "?P (rs ! j)" if "j < ?k" for j
    using that by (metis nth_mem set_takeWhileD takeWhile_nth)
  have unique: "k = ?k" if "k < length rs" "selects m p (rs ! k)" "\<forall>j < k. \<not> selects m p (rs ! j)"
  proof -
    have "takeWhile ?P rs = take k rs"
      using that by (intro takeWhile_eq_take_P_nth) auto
    with that(1) show ?thesis by simp
  qed
  show ?thesis
  proof
    assume "find_route m p 0 rs = Some (k, r, ps)"
    then have "?k < length rs" "k = ?k" "r = rs ! ?k" "ps = params (matchPath p (path (rs ! ?k)))"
      by (auto simp: find_route_takeWhile Let_def split: if_splits)
    with first before show "k < length rs \<and> r = rs ! k \<and> selects m p r \<and>
        (\<forall>j < k. \<not> selects m p (rs ! j)) \<and> ps = params (matchPath p (path r))"
      by auto
  next
    assume a: "k < length rs \<and> r = rs ! k \<and> selects m p r \<and>
        (\<forall>j < k. \<not> selects m p (rs ! j)) \<and> ps = params (matchPath p (path r))"
    then have "k = ?k" using unique by blast
    with a show "find_route m p 0 rs = Some (k, r, ps)"
      by (auto simp: find_route_takeWhile Let_def)
  qed
qed

lemma find_route_member: "find_route m p i rs = Some (k, r, ps) \<Longrightarrow> r \<in> set rs"
  by (induction rs arbitrary: i) (auto simp: Let_def split: if_splits)

text \<open>
  Claim C5. Registration order decides. The scan returns the route at index \<open>k\<close>
  exactly when that route has the method of the request and a pattern that matches its
  path and no route registered before it has; the parameters it returns are those of the
  match; and the continuation, called without an error, puts these parameters on the
  request and runs the handlers of that route. When \<^verbatim>\<open>/users/:id\<close> is registered
  before \<^verbatim>\<open>/users/me\<close>, a \<^verbatim>\<open>GET\<close> of \<^verbatim>\<open>/users/me\<close> runs the handlers of the first
  route with \<open>id\<close> bound to \<open>me\<close>, whatever the handlers of the two routes are; the
  handlers of the literal route are not run.
\<close>

theorem registration_order_precedence:
  "(find_route m p 0 rs = Some (k, r, ps)) =
     (k < length rs \<and> r = rs ! k \<and> selects m p r \<and> (\<forall>j < k. \<not> selects m p (rs ! j)) \<and>
      ps = params (matchPath p (path r))) \<and>
   (find_route m p 0 (routes this) = Some (k, r, ps) \<longrightarrow>
      next_body this m p self None s =
        run_handlers self k 0 (handlers r) (s\<lparr>req := (req s)\<lparr>req_params := ps\<rparr>\<rparr>)) \<and>
   (routes this = users_routes hs1 hs2 \<longrightarrow>
      next_body this ''GET'' ''/users/me'' self None s =
        run_handlers self 0 0 hs1 (s\<lparr>req := (req s)\<lparr>req_params := [''id'' \<mapsto> ''me'']\<rparr>\<rparr>))"
proof -
  have "find_route ''GET'' ''/users/me'' 0 (users_routes hs1 hs2) =
      Some (0, \<lparr>route_method = ''GET'', path = ''/users/:id'', handlers = hs1\<rparr>, [''id'' \<mapsto> ''me''])"
    by (simp add: users_routes_def matchPath_users_me)
  then show ?thesis
    using find_route_Some [of m p rs k r ps] by (simp add: next_body_def)
qed

text \<open>
  The two routes with a handler each: the scan finds the first, only its handler is
  called, and its answer is the response.
\<close>

theorem registration_order_precedence_witness:
  "find_route ''GET'' ''/users/me'' 0 (routes users_app) =
     Some (0, \<lparr>route_method = ''GET'', path = ''/users/:id'', handlers = [answers ''parameter'']\<rparr>,
           [''id'' \<mapsto> ''me'']) \<and>
   calls_of (run_chain 0 users_app (http_request ''GET'' ''/users/me'')) = [RouteCall 0 0] \<and>
   handleRequest 0 users_app (http_request ''GET'' ''/users/me'') =
     Some \<lparr>resp_body = ''parameter'', resp_status = 200, resp_headers = Map.empty\<rparr>"
proof -
  have routes: "routes users_app = users_routes [answers ''parameter''] [answers ''literal'']"
    by (simp add: users_app_def users_routes_def example_defs)
  have found: "find_route ''GET'' ''/users/me'' 0 (routes users_app) =
     Some (0, \<lparr>route_method = ''GET'', path = ''/users/:id'', handlers = [answers ''parameter'']\<rparr>,
           [''id'' \<mapsto> ''me''])"
    using registration_order_precedence
      [of "''GET''" "''/users/me''" "routes users_app" 0
          "\<lparr>route_method = ''GET'', path = ''/users/:id'', handlers = [answers ''parameter'']\<rparr>"
          "[''id'' \<mapsto> ''me'']"]
    by (simp add: routes users_routes_def selects_def matchPath_users_me)
  have "next_body users_app ''GET'' ''/users/me'' self None s =
      run_handlers self 0 0 [answers ''parameter''] (s\<lparr>req := (req s)\<lparr>req_params := [''id'' \<mapsto> ''me'']\<rparr>\<rparr>)"
    for self s
    using registration_order_precedence [of _ _ _ _ _ _ users_app self s "[answers ''parameter'']" "[answers ''literal'']"]
      routes by simp
  then have run: "run_chain 0 users_app (http_request ''GET'' ''/users/me'') =
      run_handlers (\<lambda>e s. Interleaved) 0 0 [answers ''parameter'']
        ((initial (http_request ''GET'' ''/users/me''))
           \<lparr>req := (req (initial (http_request ''GET'' ''/users/me'')))\<lparr>req_params := [''id'' \<mapsto> ''me'']\<rparr>\<rparr>)"
    by (simp add: run_chain_def Let_def users_app_def example_defs)
  from found run show ?thesis
    by (simp add: handleRequest_def example_defs)
qed

text \<open>
  Claim C8. When the middleware loop ends without an error and with the body
  \<^verbatim>\<open>null\<close>, and no registered route has the method of the request and a pattern that
  matches its path, the continuation resolves without changing anything, the chain
  resolves, and \<open>handleRequest\<close> returns the response \<^verbatim>\<open>Not Found\<close> with status 404.
\<close>

theorem route_not_found:
  assumes "run_middleware (next_fn n this (rq_method request) (rq_pathname request))
             (rq_pathname request) 0 (middleware this) (initial request) = Resolved s1"
    and "body (res s1) = None"
    and "\<forall>route \<in> set (routes this).
           \<not> (route_method route = rq_method request \<and>
              matched (matchPath (rq_pathname request) (path route)))"
  shows "next_fn n this (rq_method request) (rq_pathname request) None s1 = Resolved s1 \<and>
         run_chain n this request = Resolved s1 \<and>
         handleRequest n this request =
           Some \<lparr>resp_body = ''Not Found'', resp_status = 404, resp_headers = Map.empty\<rparr>"
proof -
  from assms(3) have "find_route (rq_method request) (rq_pathname request) 0 (routes this) = None"
    by (simp add: find_route_None selects_def)
  then have "next_body this (rq_method request) (rq_pathname request) self None s1 = Resolved s1"
    for self by (simp add: next_body_def)
  then have nx: "next_fn n this (rq_method request) (rq_pathname request) None s1 = Resolved s1"
    by (cases n) simp_all
  with run_chain_after_middleware [OF assms(1)] assms(2)
  have chain: "run_chain n this request = Resolved s1" by simp
  with nx assms(2) show ?thesis by (simp add: handleRequest_def)
qed

text \<open>
  A request for a path that no route of the engine matches.
\<close>

theorem route_not_found_witness:
  "handleRequest 0 users_app (http_request ''GET'' ''/orders/1'') =
     Some \<lparr>resp_body = ''Not Found'', resp_status = 404, resp_headers = Map.empty\<rparr>"
  using route_not_found [of 0 users_app "http_request ''GET'' ''/orders/1''"
      "initial (http_request ''GET'' ''/orders/1'')"]
  by (simp add: users_app_def example_defs matchPath_def split_def)

text \<open>
  Claim C10. When the chain ends without an error and the body is still \<^verbatim>\<open>null\<close>,
  \<open>handleRequest\<close> returns the response \<^verbatim>\<open>Not Found\<close> with status 404 and no headers,
  whatever status and headers the handlers have put on the response object.
\<close>

theorem status_without_body_is_discarded:
  assumes "run_chain n this request = Resolved s" and "body (res s) = None"
  shows "handleRequest n this request =
           Some \<lparr>resp_body = ''Not Found'', resp_status = 404, resp_headers = Map.empty\<rparr>"
  using assms by (simp add: handleRequest_def)

text \<open>
  A route whose handler sets the status 201 and no body: the handler is called, and the
  response is \<^verbatim>\<open>Not Found\<close> with status 404.
\<close>

theorem status_without_body_is_discarded_witness:
  "calls_of (run_chain 0 status_only (http_request ''POST'' ''/users'')) = [RouteCall 0 0] \<and>
   handleRequest 0 status_only (http_request ''POST'' ''/users'') =
     Some \<lparr>resp_body = ''Not Found'', resp_status = 404, resp_headers = Map.empty\<rparr>"
proof -
  let ?rq = "http_request ''POST'' ''/users''"
  let ?s = "(called (RouteCall 0 0) (initial ?rq))
     \<lparr>res := \<lparr>statusCode = 201, headers = Map.empty, body = None\<rparr>\<rparr>"
  have run: "run_chain 0 status_only ?rq = Resolved ?s"
    by (simp add: run_chain_def next_body_def matchPath_def Let_def status_only_def post_def example_defs)
  from status_without_body_is_discarded [OF run] run show ?thesis
    by (simp add: example_defs)
qed

section \<open>Errors\<close>








subsection \<open>An error whose promise is dropped\<close>

text \<open>
  Claim C3. The code does not do what the claim says for a handler that calls the
  continuation with an error and drops the promise, as a handler written for the usual
  callback convention does. In an engine without error handlers the call throws the
  error again, inside the asynchronous closure; the promise is rejected and nothing
  awaits it, so the error is an unhandled rejection outside the \<^verbatim>\<open>catch\<close> of
  \<^verbatim>\<open>handleRequest\<close>, the chain goes on, and the response is the route's answer with
  status 200, not \<^verbatim>\<open>Internal Server Error\<close>. The same engine with a middleware that
  returns the promise answers with status 500 and leaves no rejection unhandled.
\<close>

theorem dropped_error_escapes:
  "handler (hd (middleware dropping_middleware)) = Detach (Some (Error ''boom'')) Return \<and>
   errorHandlers dropping_middleware = [] \<and>
   unhandled_of (run_chain 0 dropping_middleware (http_request ''GET'' ''/x'')) = [Error ''boom''] \<and>
   handleRequest 0 dropping_middleware (http_request ''GET'' ''/x'') =
     Some \<lparr>resp_body = ''late'', resp_status = 200, resp_headers = Map.empty\<rparr> \<and>
   unhandled_of (run_chain 0 failing_middleware (http_request ''GET'' ''/x'')) = [] \<and>
   handleRequest 0 failing_middleware (http_request ''GET'' ''/x'') =
     Some \<lparr>resp_body = ''Internal Server Error'', resp_status = 500, resp_headers = Map.empty\<rparr>"
  by (simp add: handleRequest_def run_chain_def next_body_def matchPath_def Let_def
        dropping_middleware_def failing_middleware_def signals_def stack_overflow_def example_defs)

subsection \<open>A route handler that calls the continuation\<close>

text \<open>
  A route handler that returns \<^verbatim>\<open>next()\<close>: the closure runs the chain of the route
  again, one call inside the other, until the stack is full; the error of the platform
  rejects every pending call in turn, and the \<^verbatim>\<open>catch\<close> of \<^verbatim>\<open>handleRequest\<close> answers
  with status 500, whatever the room on the stack.
\<close>

lemma reentrant_route:
  "find_route ''GET'' ''/x'' 0 (routes reentrant) =
     Some (0, \<lparr>route_method = ''GET'', path = ''/x'', handlers = [Next None Return Throw, answers ''h'']\<rparr>,
           Map.empty)"
  by (simp add: reentrant_def get_def addRoute_def constructor_def matchPath_def)

lemma reentrant_step:
  "next_body reentrant ''GET'' ''/x'' self None s =
     (case self None (called (RouteCall 0 0) (s\<lparr>req := (req s)\<lparr>req_params := Map.empty\<rparr>\<rparr>)) of
        Resolved s' \<Rightarrow>
          if body (res s') \<noteq> None then Resolved s'
          else exec self (answers ''h'') (called (RouteCall 0 (Suc 0)) s')
      | out \<Rightarrow> out)"
  by (simp add: next_body_def reentrant_route split: outcome.splits)

lemma reentrant_overflows:
  "\<exists>s'. next_fn n reentrant ''GET'' ''/x'' None s = Rejected stack_overflow s'"
proof (induction n arbitrary: s)
  case 0
  show ?case by (simp add: reentrant_step)
next
  case (Suc n)
  let ?t = "called (RouteCall 0 0) (s\<lparr>req := (req s)\<lparr>req_params := Map.empty\<rparr>\<rparr>)"
  from Suc [of ?t] obtain s' where
    "next_fn n reentrant ''GET'' ''/x'' None ?t = Rejected stack_overflow s'" by blast
  then show ?case by (simp add: reentrant_step)
qed

lemma reentrant_answered:
  "handleRequest n reentrant (http_request ''GET'' ''/x'') =
     Some \<lparr>resp_body = ''Internal Server Error'', resp_status = 500, resp_headers = Map.empty\<rparr>"
proof -
  let ?rq = "http_request ''GET'' ''/x''"
  obtain s' where "next_fn n reentrant ''GET'' ''/x'' None (initial ?rq) = Rejected stack_overflow s'"
    using reentrant_overflows by blast
  moreover have "middleware reentrant = []"
    by (simp add: reentrant_def get_def addRoute_def constructor_def)
  ultimately show ?thesis
    by (simp add: handleRequest_def run_chain_def Let_def http_request_def initial_def)
qed

section \<open>Mounting a sub-router\<close>

lemma mount_routes_distinct:
  "this \<noteq> router \<Longrightarrow> i \<le> length (routes (h router)) \<Longrightarrow>
   length (routes (h router)) - i \<le> fuel \<Longrightarrow>
   mount_routes fuel prefix this router i h =
     Some (h(this := (h this)\<lparr>routes := routes (h this) @
        map (\<lambda>route. route\<lparr>path := fullPath prefix (path route)\<rparr>) (drop i (routes (h router)))\<rparr>))"
proof (induction fuel arbitrary: i h)
  case 0
  then show ?case by simp
next
  case (Suc fuel)
  show ?case
  proof (cases "i < length (routes (h router))")
    case False
    with Suc.prems show ?thesis by simp
  next
    case True
    let ?route = "routes (h router) ! i"
    let ?h = "h(this := (h this)\<lparr>routes := routes (h this) @ [?route\<lparr>path := fullPath prefix (path ?route)\<rparr>]\<rparr>)"
    from Suc.prems(1) have same: "?h router = h router" by simp
    have "mount_routes fuel prefix this router (Suc i) ?h =
        Some (?h(this := (?h this)\<lparr>routes := routes (?h this) @
          map (\<lambda>route. route\<lparr>path := fullPath prefix (path route)\<rparr>) (drop (Suc i) (routes (?h router)))\<rparr>))"
      using Suc.prems True by (intro Suc.IH) (simp_all only: same, simp_all)
    moreover have "drop i (routes (h router)) = ?route # drop (Suc i) (routes (h router))"
      using True by (simp add: Cons_nth_drop_Suc)
    then have "?h(this := (?h this)\<lparr>routes := routes (?h this) @
          map (\<lambda>route. route\<lparr>path := fullPath prefix (path route)\<rparr>) (drop (Suc i) (routes (?h router)))\<rparr>) =
        h(this := (h this)\<lparr>routes := routes (h this) @
          map (\<lambda>route. route\<lparr>path := fullPath prefix (path route)\<rparr>) (drop i (routes (h router)))\<rparr>)"
      unfolding same by simp
    moreover have "mount_routes (Suc fuel) prefix this router i h =
        mount_routes fuel prefix this router (Suc i) ?h"
      using True by (simp only: mount_routes.simps Let_def if_True)
    ultimately show ?thesis by (simp only:)
  qed
qed

lemma mount_middleware_distinct:
  "this \<noteq> router \<Longrightarrow> i \<le> length (middleware (h router)) \<Longrightarrow>
   length (middleware (h router)) - i \<le> fuel \<Longrightarrow>
   mount_middleware fuel prefix this router i h =
     Some (h(this := (h this)\<lparr>middleware := middleware (h this) @
        map (\<lambda>mw. mw\<lparr>mw_path := fullPath prefix (mw_path mw)\<rparr>) (drop i (middleware (h router)))\<rparr>))"
proof (induction fuel arbitrary: i h)
  case 0
  then show ?case by simp
next
  case (Suc fuel)
  show ?case
  proof (cases "i < length (middleware (h router))")
    case False
    with Suc.prems show ?thesis by simp
  next
    case True
    let ?mw = "middleware (h router) ! i"
    let ?h = "h(this := (h this)\<lparr>middleware := middleware (h this) @ [?mw\<lparr>mw_path := fullPath prefix (mw_path ?mw)\<rparr>]\<rparr>)"
    from Suc.prems(1) have same: "?h router = h router" by simp
    have "mount_middleware fuel prefix this router (Suc i) ?h =
        Some (?h(this := (?h this)\<lparr>middleware := middleware (?h this) @
          map (\<lambda>mw. mw\<lparr>mw_path := fullPath prefix (mw_path mw)\<rparr>) (drop (Suc i) (middleware (?h router)))\<rparr>))"
      using Suc.prems True by (intro Suc.IH) (simp_all only: same, simp_all)
    moreover have "drop i (middleware (h router)) = ?mw # drop (Suc i) (middleware (h router))"
      using True by (simp add: Cons_nth_drop_Suc)
    then have "?h(this := (?h this)\<lparr>middleware := middleware (?h this) @
          map (\<lambda>mw. mw\<lparr>mw_path := fullPath prefix (mw_path mw)\<rparr>) (drop (Suc i) (middleware (?h router)))\<rparr>) =
        h(this := (h this)\<lparr>middleware := middleware (h this) @
          map (\<lambda>mw. mw\<lparr>mw_path := fullPath prefix (mw_path mw)\<rparr>) (drop i (middleware (h router)))\<rparr>)"
      unfolding same by simp
    moreover have "mount_middleware (Suc fuel) prefix this router i h =
        mount_middleware fuel prefix this router (Suc i) ?h"
      using True by (simp only: mount_middleware.simps Let_def if_True)
    ultimately show ?thesis by (simp only:)
  qed
qed

lemma useRouter_distinct:
  assumes "this \<noteq> router"
    and "length (routes (h router)) \<le> fuel"
    and "length (middleware (h router)) \<le> fuel"
  shows "useRouter fuel prefix this router h = Some (h(this := mounted prefix (h router) (h this)))"
proof -
  let ?h = "h(this := (h this)\<lparr>routes := routes (h this) @
        map (\<lambda>route. route\<lparr>path := fullPath prefix (path route)\<rparr>) (routes (h router))\<rparr>)"
  have r: "mount_routes fuel prefix this router 0 h = Some ?h"
    using mount_routes_distinct [of this router 0 h fuel prefix] assms by simp
  from assms(1) have same: "?h router = h router" by simp
  have "mount_middleware fuel prefix this router 0 ?h =
      Some (?h(this := (?h this)\<lparr>middleware := middleware (?h this) @
        map (\<lambda>mw. mw\<lparr>mw_path := fullPath prefix (mw_path mw)\<rparr>) (drop 0 (middleware (?h router)))\<rparr>))"
    using assms by (intro mount_middleware_distinct) (simp_all only: same, simp_all)
  with r assms(1) show ?thesis by (simp add: useRouter_def mounted_def)
qed

text \<open>
  Mounting an engine that has a route into itself does not end: every step pushes onto
  the array that the loop reads.
\<close>

lemma mount_routes_on_itself:
  "i < length (routes (h this)) \<Longrightarrow> mount_routes fuel prefix this this i h = None"
proof (induction fuel arbitrary: i h)
  case 0
  then show ?case by simp
next
  case (Suc fuel)
  let ?route = "routes (h this) ! i"
  let ?h = "h(this := (h this)\<lparr>routes := routes (h this) @ [?route\<lparr>path := fullPath prefix (path ?route)\<rparr>]\<rparr>)"
  from Suc.prems have "Suc i < length (routes (?h this))" by simp
  then have "mount_routes fuel prefix this this (Suc i) ?h = None" by (rule Suc.IH)
  with Suc.prems show ?case by (simp add: Let_def)
qed

lemma useRouter_on_itself:
  "routes (h this) \<noteq> [] \<Longrightarrow> useRouter fuel prefix this this h = None"
  by (simp add: useRouter_def mount_routes_on_itself)

text \<open>
  Claim C7, as amended. For a parent engine and a child engine that are different objects,
  \<^verbatim>\<open>useRouter(prefix, child)\<close> returns, and afterwards the routes of the parent are its
  former routes followed by a copy of every route of the child, in the child's order,
  with the path \<open>prefix\<close> followed by the path of the route, or the path of the route
  alone when the prefix is \<^verbatim>\<open>"/"\<close>; likewise for the middleware entries. The error
  handlers of the parent, the child and every other engine are unchanged, and when a
  route is registered on the child afterwards, the routes of the parent are still those.
\<close>

theorem useRouter_mounts_copies:
  assumes "this \<noteq> router"
    and "length (routes (h router)) \<le> fuel"
    and "length (middleware (h router)) \<le> fuel"
  shows "\<exists>h'. useRouter fuel prefix this router h = Some h' \<and>
           routes (h' this) = routes (h this) @
             map (\<lambda>route. route\<lparr>path := fullPath prefix (path route)\<rparr>) (routes (h router)) \<and>
           middleware (h' this) = middleware (h this) @
             map (\<lambda>mw. mw\<lparr>mw_path := fullPath prefix (mw_path mw)\<rparr>) (middleware (h router)) \<and>
           errorHandlers (h' this) = errorHandlers (h this) \<and>
           fullPath ''/'' p = p \<and> (prefix \<noteq> ''/'' \<longrightarrow> fullPath prefix p = prefix @ p) \<and>
           (\<forall>x. x \<noteq> this \<longrightarrow> h' x = h x) \<and> h' router = h router \<and>
           routes ((h'(router := addRoute m p hs (h' router))) this) =
             routes (h this) @
               map (\<lambda>route. route\<lparr>path := fullPath prefix (path route)\<rparr>) (routes (h router))"
  using useRouter_distinct [of this router h fuel prefix] assms
  by (simp add: mounted_def fullPath_def)

text \<open>
  A child with the one route \<^verbatim>\<open>GET /ping\<close>, mounted at \<^verbatim>\<open>/api\<close> into an empty
  parent: the parent has exactly \<^verbatim>\<open>GET /api/ping\<close>, the child still \<^verbatim>\<open>GET /ping\<close>.
\<close>

theorem useRouter_mounts_copies_witness:
  "\<exists>h'. useRouter 1 ''/api'' 0 (Suc 0) ping_engines = Some h' \<and>
     routes (h' 0) = [\<lparr>route_method = ''GET'', path = ''/api/ping'', handlers = [answers ''pong'']\<rparr>] \<and>
     routes (h' (Suc 0)) = [\<lparr>route_method = ''GET'', path = ''/ping'', handlers = [answers ''pong'']\<rparr>]"
  using useRouter_mounts_copies [of 0 "Suc 0" ping_engines 1 "''/api''"]
  by (auto simp: ping_engines_def get_def addRoute_def constructor_def fullPath_def)

text \<open>
  The claim C7 as it was stated fails for an engine that is mounted into itself: the
  engine has a route, and the call does not return, whatever the number of steps.
\<close>

theorem useRouter_into_itself_never_returns:
  "routes (ping_engines (Suc 0)) =
     [\<lparr>route_method = ''GET'', path = ''/ping'', handlers = [answers ''pong'']\<rparr>] \<and>
   (\<forall>fuel. useRouter fuel ''/api'' (Suc 0) (Suc 0) ping_engines = None)"
proof -
  have r: "routes (ping_engines (Suc 0)) =
      [\<lparr>route_method = ''GET'', path = ''/ping'', handlers = [answers ''pong'']\<rparr>]"
    by (simp add: ping_engines_def get_def addRoute_def constructor_def)
  then have "routes (ping_engines (Suc 0)) \<noteq> []" by simp
  then have "useRouter fuel ''/api'' (Suc 0) (Suc 0) ping_engines = None" for fuel
    by (rule useRouter_on_itself)
  with r show ?thesis by blast
qed

end
